theory Spec2Isabelle
  imports Main "HOL-Library.Sublist" "HOL-Library.AList"
begin

section \<open>The dockercompose module: strings, output classifier, dependency resolver\<close>

text \<open>
  The module \<^verbatim>\<open>dockercompose.py\<close> assembles one \<^verbatim>\<open>docker-compose\<close> command
  line, runs it, and classifies the captured output. Strings are byte strings (the
  \<^verbatim>\<open>str\<close> of the interpreter the shebang line names), so a HOL \<^typ>\<open>string\<close> is
  the source's string and whitespace is the six ASCII whitespace bytes. Every Python
  exception the embedded code can raise is a value of \<open>error\<close>; a function that can
  raise returns \<open>error + 'a\<close> with \<open>Inl\<close> for the exception.
\<close>

datatype error = AttributeError | TypeError | IndexError | OSError

subsection \<open>Python string operations\<close>

definition startswith :: "string \<Rightarrow> string \<Rightarrow> bool" where
  \<comment> \<open>\<^verbatim>\<open>s.startswith(p)\<close>\<close>
  "startswith s p = prefix p s"

definition endswith :: "string \<Rightarrow> string \<Rightarrow> bool" where
  \<comment> \<open>\<^verbatim>\<open>s.endswith(p)\<close>\<close>
  "endswith s p = suffix p s"

definition contains :: "string \<Rightarrow> string \<Rightarrow> bool" where
  \<comment> \<open>\<^verbatim>\<open>p in s\<close>: \<open>p\<close> occurs in \<open>s\<close> as a contiguous substring\<close>
  "contains s p = sublist p s"

definition isspace :: "char \<Rightarrow> bool" where
  \<comment> \<open>space, tab, line feed, vertical tab, form feed, carriage return\<close>
  "isspace c = (c \<in> set [CHR 0x20, CHR 0x09, CHR 0x0A, CHR 0x0B, CHR 0x0C, CHR 0x0D])"

definition strip :: "string \<Rightarrow> string" where
  \<comment> \<open>\<^verbatim>\<open>s.strip()\<close>: leading and trailing whitespace removed\<close>
  "strip s = rev (dropWhile isspace (rev (dropWhile isspace s)))"

fun split_from :: "string \<Rightarrow> string \<Rightarrow> string list" where
  \<comment> \<open>the tokens of the rest of the string, \<open>cur\<close> being the token read so far\<close>
  "split_from cur [] = (if cur = [] then [] else [cur])"
| "split_from cur (c # cs) =
     (if isspace c then (if cur = [] then split_from [] cs else cur # split_from [] cs)
      else split_from (cur @ [c]) cs)"

definition split :: "string \<Rightarrow> string list" where
  \<comment> \<open>\<^verbatim>\<open>s.split()\<close>: the maximal runs of non-whitespace bytes\<close>
  "split s = split_from [] s"

fun join :: "string \<Rightarrow> string list \<Rightarrow> string" where
  \<comment> \<open>\<^verbatim>\<open>sep.join(xs)\<close> on a list of strings\<close>
  "join sep [] = []"
| "join sep [x] = x"
| "join sep (x # y # ys) = x @ sep @ join sep (y # ys)"

fun splitlines_from :: "string \<Rightarrow> string \<Rightarrow> string list" where
  "splitlines_from cur [] = (if cur = [] then [] else [cur])"
| "splitlines_from cur (c # cs) =
     (if c = CHR 0x0A then cur # splitlines_from [] cs
      else if c = CHR 0x0D then
        (case cs of
           d # ds \<Rightarrow> if d = CHR 0x0A then cur # splitlines_from [] ds
                     else cur # splitlines_from [] cs
         | [] \<Rightarrow> cur # splitlines_from [] cs)
      else splitlines_from (cur @ [c]) cs)"

definition splitlines :: "string \<Rightarrow> string list" where
  \<comment> \<open>\<^verbatim>\<open>s.splitlines()\<close> of a byte string: lines end at LF, CR or CR LF\<close>
  "splitlines s = splitlines_from [] s"

definition set_if_any :: "('a \<Rightarrow> bool) \<Rightarrow> 'a list \<Rightarrow> bool \<Rightarrow> bool" where
  \<comment> \<open>the loop \<^verbatim>\<open>for x in xs: if P(x): flag = True\<close>, from the flag's value before it\<close>
  "set_if_any P xs flag = fold (\<lambda>x b. if P x then True else b) xs flag"

subsection \<open>Service-state alignment\<close>

text \<open>
  \<^verbatim>\<open>service_state_allign(lines, prefix)\<close>. The dictionary it builds is an association
  list with one pair per key; \<^const>\<open>AList.update\<close> overwrites the value of a key that is
  there and appends a new key otherwise. \<^verbatim>\<open>split()[1]\<close> raises IndexError on a line of
  fewer than two tokens.
\<close>

definition second_token :: "string \<Rightarrow> error + string" where
  \<comment> \<open>\<^verbatim>\<open>ln.split()[1]\<close>\<close>
  "second_token ln = (case split ln of _ # t # _ \<Rightarrow> Inr t | _ \<Rightarrow> Inl IndexError)"

fun second_tokens :: "string list \<Rightarrow> error + string list" where
  \<comment> \<open>\<^verbatim>\<open>[ln.split()[1] for ln in lns]\<close>: the first line that raises ends the comprehension\<close>
  "second_tokens [] = Inr []"
| "second_tokens (ln # lns) =
     (case second_token ln of
        Inl e \<Rightarrow> Inl e
      | Inr t \<Rightarrow> (case second_tokens lns of Inl e \<Rightarrow> Inl e | Inr ts \<Rightarrow> Inr (t # ts)))"

definition record_errors ::
  "string list \<Rightarrow> string \<Rightarrow> (string \<times> string) list \<Rightarrow> (string \<times> string) list" where
  \<comment> \<open>the inner loop over \<open>error_lines\<close> for one \<open>error_service\<close>\<close>
  "record_errors error_lines error_service service_state =
     fold (\<lambda>error_line st.
             if contains error_line error_service then AList.update error_service error_line st
             else st)
       error_lines service_state"

definition service_state_allign ::
  "string list \<Rightarrow> string \<Rightarrow> error + (string \<times> string) list" where
  "service_state_allign lines pfx =
     (let pausing_lines =
            filter (\<lambda>ln. startswith ln pfx \<and> \<not> endswith (strip ln) ''...'') lines;
          error_lines = filter (\<lambda>ln. startswith ln ''ERROR'') lines
      in case second_tokens (filter (\<lambda>ln. endswith ln ''error'') pausing_lines) of
           Inl e \<Rightarrow> Inl e
         | Inr error_services \<Rightarrow>
             (case second_tokens (filter (\<lambda>ln. endswith ln ''done'') pausing_lines) of
                Inl e \<Rightarrow> Inl e
              | Inr done_services \<Rightarrow>
                  (let service_state = [];
                       service_state = fold (record_errors error_lines) error_services service_state;
                       service_state =
                         fold (\<lambda>done_service st. AList.update done_service ''done'' st)
                           done_services service_state
                   in Inr service_state)))"

subsection \<open>The output classifier\<close>

text \<open>
  \<^verbatim>\<open>eval_change(action, stderr_lines, stdout_lines)\<close> returns the pair
  \<open>(changeVal, failVal)\<close>. The source's \<open>if\<close> statements run one after the other on
  the two flags; so do the bindings here. The loops over \<open>service_state\<close> read the
  value stored under each key of the dictionary, that is each value of the association
  list.
\<close>

definition eval_change :: "string \<Rightarrow> string list \<Rightarrow> string list \<Rightarrow> error + (bool \<times> bool)" where
  "eval_change action stderr_lines stdout_lines =
     (let changeVal = False;
          failVal = False;
          changeVal =
            (if action = ''up'' then
               set_if_any (\<lambda>valid_line. \<not> endswith valid_line ''up-to-date'')
                 (filter (\<lambda>ln. startswith ln ''Starting'' \<or> startswith ln ''Creating'') stderr_lines)
                 changeVal
             else changeVal);
          changeVal =
            (if action = ''pull'' then
               set_if_any (\<lambda>stdout_line. contains stdout_line ''Status: Downloaded newer image'')
                 stdout_lines changeVal
             else changeVal);
          failVal =
            (if action = ''build'' then
               set_if_any (\<lambda>stderr_line. contains stderr_line ''failed to build'')
                 stderr_lines failVal
             else failVal);
          changeVal = (if action = ''stop'' \<and> length stderr_lines > 0 then True else changeVal);
          changeVal = (if action = ''create'' \<and> length stderr_lines > 0 then True else changeVal);
          changeVal = (if action = ''start'' then False else changeVal)
      in case (if action = ''pause'' then
                 (case service_state_allign stderr_lines ''Pausing'' of
                    Inl e \<Rightarrow> Inl e
                  | Inr service_state \<Rightarrow>
                      Inr (set_if_any (\<lambda>v. \<not> endswith v ''is already paused'')
                             (map snd service_state) changeVal))
               else Inr changeVal) of
           Inl e \<Rightarrow> Inl e
         | Inr changeVal \<Rightarrow>
             (case (if action = ''unpause'' then
                      (case service_state_allign stderr_lines ''Unpausing'' of
                         Inl e \<Rightarrow> Inl e
                       | Inr service_state \<Rightarrow>
                           Inr (set_if_any (\<lambda>v. \<not> endswith v ''is not paused'')
                                  (map snd service_state) changeVal))
                    else Inr changeVal) of
                Inl e \<Rightarrow> Inl e
              | Inr changeVal \<Rightarrow> Inr (changeVal, failVal)))"

subsection \<open>The compose document\<close>

text \<open>
  What \<^verbatim>\<open>yaml.load\<close> returns: nothing, a number, a string, a list or a dictionary.
  A YAML boolean is a Python \<open>bool\<close>, which is an \<open>int\<close> (\<open>True == 1\<close>, with the same
  hash), so it is \<open>YInt 1\<close> or \<open>YInt 0\<close> here. The module looks dictionaries up under
  string keys only, so a dictionary is an association list on strings with one pair
  per key; floating-point scalars are left out.
\<close>

datatype yaml = YNull | YInt int | YStr string | YList "yaml list" | YMap "(string \<times> yaml) list"

definition dict_get :: "yaml \<Rightarrow> string \<Rightarrow> yaml \<Rightarrow> error + yaml" where
  \<comment> \<open>\<^verbatim>\<open>d.get(k, dflt)\<close>: only a dictionary has the method\<close>
  "dict_get d k dflt =
     (case d of
        YMap kvs \<Rightarrow> Inr (case map_of kvs k of Some v \<Rightarrow> v | None \<Rightarrow> dflt)
      | _ \<Rightarrow> Inl AttributeError)"

definition list_add :: "yaml list \<Rightarrow> yaml \<Rightarrow> error + yaml list" where
  \<comment> \<open>\<^verbatim>\<open>xs + y\<close> for a list \<open>xs\<close>: \<open>y\<close> has to be a list too\<close>
  "list_add xs y = (case y of YList ys \<Rightarrow> Inr (xs @ ys) | _ \<Rightarrow> Inl TypeError)"

fun hashable :: "yaml \<Rightarrow> bool" where
  "hashable (YList _) = False"
| "hashable (YMap _) = False"
| "hashable _ = True"

definition list_set :: "yaml list \<Rightarrow> error + yaml list" where
  \<comment> \<open>\<^verbatim>\<open>list(set(xs))\<close>: each element once, in an order the language leaves open
      (here the order of \<^const>\<open>remdups\<close>); a list or a dictionary cannot be an element\<close>
  "list_set xs = (if list_all hashable xs then Inr (remdups xs) else Inl TypeError)"

fun str_items :: "yaml list \<Rightarrow> error + string list" where
  \<comment> \<open>the items of a sequence handed to \<^verbatim>\<open>' '.join\<close>: each has to be a string\<close>
  "str_items [] = Inr []"
| "str_items (YStr s # xs) = (case str_items xs of Inl e \<Rightarrow> Inl e | Inr ss \<Rightarrow> Inr (s # ss))"
| "str_items (_ # xs) = Inl TypeError"

subsection \<open>Dependency resolution\<close>

fun resolve_loop :: "yaml \<Rightarrow> yaml list \<Rightarrow> string list \<Rightarrow> error + yaml list" where
  \<comment> \<open>the loop \<^verbatim>\<open>for service in p['services']\<close>, from the list \<open>depedency_services\<close> so far\<close>
  "resolve_loop all_services depedency_services [] = Inr depedency_services"
| "resolve_loop all_services depedency_services (service # rest) =
     (case dict_get all_services service (YMap []) of
        Inl e \<Rightarrow> Inl e
      | Inr current_service \<Rightarrow>
          (case dict_get current_service ''depends_on'' (YList []) of
             Inl e \<Rightarrow> Inl e
           | Inr depends_on \<Rightarrow>
               (case list_add depedency_services depends_on of
                  Inl e \<Rightarrow> Inl e
                | Inr both \<Rightarrow>
                    (case list_set both of
                       Inl e \<Rightarrow> Inl e
                     | Inr depedency_services' \<Rightarrow>
                         resolve_loop all_services depedency_services' rest))))"

definition resolve_dependencies :: "bool \<Rightarrow> yaml \<Rightarrow> string list \<Rightarrow> error + yaml list" where
  \<comment> \<open>lines 132 to 138 of \<open>main\<close>: the value of \<open>depedency_services\<close> after them\<close>
  "resolve_dependencies ignoredependencys info services =
     (if \<not> ignoredependencys then
        (case dict_get info ''services'' (YList []) of
           Inl e \<Rightarrow> Inl e
         | Inr all_services \<Rightarrow> resolve_loop all_services [] services)
      else Inr [])"

definition service_names :: "yaml list \<Rightarrow> string list \<Rightarrow> error + string list" where
  \<comment> \<open>\<^verbatim>\<open>list(set(depedency_services + p['services']))\<close> as \<^verbatim>\<open>' '.join\<close> accepts it\<close>
  "service_names depedency_services services =
     (case list_set (depedency_services @ map YStr services) of
        Inl e \<Rightarrow> Inl e
      | Inr names \<Rightarrow> str_items names)"

definition effective_services :: "bool \<Rightarrow> yaml \<Rightarrow> string list \<Rightarrow> error + string list" where
  \<comment> \<open>the services the command line names: the requested ones and their dependencies\<close>
  "effective_services ignoredependencys info services =
     (case resolve_dependencies ignoredependencys info services of
        Inl e \<Rightarrow> Inl e
      | Inr depedency_services \<Rightarrow> service_names depedency_services services)"

subsection \<open>The module's entry point\<close>

text \<open>
  \<open>main\<close> reads the parameters the framework has validated (\<open>command\<close> is one of the
  nine choices) and talks to the host: the search for the binary, the file system, the
  YAML loader and \<^verbatim>\<open>run_command\<close>. The host is a record of what these calls answer;
  the result is the list of command lines run, in order, and how the module ended.
\<close>

record params =
  location :: string
  services :: "string list"
  command :: string
  ignoredependencys :: bool
  removevolumes :: bool

record host =
  get_bin_path :: "string option"  \<comment> \<open>\<^verbatim>\<open>module.get_bin_path("docker-compose")\<close>\<close>
  alternative_exists :: bool  \<comment> \<open>\<^verbatim>\<open>os.path.exists('/usr/local/bin/docker-compose')\<close>\<close>
  location_is_file :: bool  \<comment> \<open>\<open>location\<close> exists and is a file\<close>
  load_yaml :: "yaml option"  \<comment> \<open>the loaded document, \<open>None\<close> when reading or decoding raises\<close>
  chdir_ok :: bool  \<comment> \<open>\<^verbatim>\<open>os.chdir(os.path.dirname(location))\<close> succeeds\<close>
  run_command :: "string \<Rightarrow> int \<times> string \<times> string"  \<comment> \<open>\<open>(rc, stdout, stderr)\<close>\<close>

datatype outcome =
  Fail_json string "(string \<times> string) option"
    \<comment> \<open>\<^verbatim>\<open>module.fail_json\<close>: the message, and \<open>(stdout, stderr)\<close> when given\<close>
| Exit_json int bool "nat \<times> bool \<times> bool" string string
    \<comment> \<open>\<^verbatim>\<open>module.exit_json\<close>: \<open>rc\<close>, \<open>changed\<close>, \<open>msg\<close>, \<open>stdout\<close>, \<open>stderr\<close>\<close>
| Raised error
    \<comment> \<open>an exception nothing catches\<close>

definition find_compose_cmd :: "host \<Rightarrow> string option" where
  \<comment> \<open>lines 104 to 112: the path of the binary, \<open>None\<close> where the module fails\<close>
  "find_compose_cmd h =
     (case get_bin_path h of
        Some c \<Rightarrow> if c \<noteq> [] then Some c
                  else if alternative_exists h then Some ''/usr/local/bin/docker-compose'' else None
      | None \<Rightarrow> if alternative_exists h then Some ''/usr/local/bin/docker-compose'' else None)"

definition run_module ::
  "host \<Rightarrow> params \<Rightarrow> string \<Rightarrow> string list \<Rightarrow> string list \<times> outcome" where
  \<comment> \<open>lines 141 to 182: from the command list to the end, \<open>names\<close> being the service names\<close>
  "run_module h p COMPOSE_CMD names =
     (let command_list = [COMPOSE_CMD];
          command_list =
            (if command p = ''up'' then command_list @ [''up -d'']
             else command_list @ [command p]);
          ran =
            (if command p \<in> set [''stop'', ''down'']
             then [join '' '' [COMPOSE_CMD, ''unpause'', join '' '' names]] else []);
          command_list =
            (if \<not> command p = ''down'' then command_list @ [join '' '' names]
             else if removevolumes p then command_list @ [''-v''] else command_list);
          command_str = join '' '' command_list;
          (rc, stdout, stderr) = run_command h command_str;
          ran = ran @ [command_str];
          stderr_lines = splitlines stderr;
          stdout_lines = splitlines stdout
      in case eval_change (command p) stderr_lines stdout_lines of
           Inl e \<Rightarrow> (ran, Raised e)
         | Inr (changed, failed) \<Rightarrow>
             (if failed then (ran, Fail_json ''Build Failed.'' (Some (stdout, stderr)))
              else (ran, Exit_json rc changed (length stderr_lines, changed, failed) stdout stderr)))"

definition main :: "host \<Rightarrow> params \<Rightarrow> string list \<times> outcome" where
  "main h p =
     (case find_compose_cmd h of
        None \<Rightarrow> ([], Fail_json ''docker-compose binary not found'' None)
      | Some COMPOSE_CMD \<Rightarrow>
          if \<not> location_is_file h then
            ([], Fail_json ''Location does not exists. Enter full path and compose filename.'' None)
          else if command p = ''down'' \<and> length (services p) \<ge> 1 then
            ([], Fail_json ''You cannot specify the command as down and a number of services'' None)
          else
            (case load_yaml h of
               None \<Rightarrow> ([], Fail_json ''YAML cannot be decoded.'' None)
             | Some info \<Rightarrow>
                 if \<not> chdir_ok h then ([], Raised OSError)
                 else
                   (case resolve_dependencies (ignoredependencys p) info (services p) of
                      Inl e \<Rightarrow> ([], Raised e)
                    | Inr depedency_services \<Rightarrow>
                        (case service_names depedency_services (services p) of
                           Inl e \<Rightarrow> ([], Raised e)
                         | Inr names \<Rightarrow> run_module h p COMPOSE_CMD names))))"

section \<open>Properties of the output classifier\<close>

lemma set_if_any_iff: "set_if_any P xs b = (b \<or> (\<exists>x\<in>set xs. P x))"
  unfolding set_if_any_def by (induction xs arbitrary: b) auto

text \<open>
  Claim C1. For the action \<open>up\<close> the classifier reports a change exactly when some
  stderr line starts with \<open>Starting\<close> or \<open>Creating\<close> and does not end with
  \<open>up-to-date\<close>, and it never reports a failure, whatever the stderr and stdout lines.
\<close>

theorem eval_change_up:
  "eval_change ''up'' stderr_lines stdout_lines =
     Inr ((\<exists>ln\<in>set stderr_lines.
             (startswith ln ''Starting'' \<or> startswith ln ''Creating'')
             \<and> \<not> endswith ln ''up-to-date''), False)"
  by (auto simp add: eval_change_def set_if_any_iff)

theorem eval_change_up_witness:
  "eval_change ''up'' [''Creating db ... done'', ''web is up-to-date''] [''x''] = Inr (True, False)
   \<and> eval_change ''up'' [''Starting web is up-to-date'', ''db is up-to-date''] [] = Inr (False, False)"
  using eval_change_up [of "[''Creating db ... done'', ''web is up-to-date'']" "[''x'']"]
    eval_change_up [of "[''Starting web is up-to-date'', ''db is up-to-date'']" "[]"]
  by (simp add: startswith_def endswith_def suffix_def)

text \<open>
  Claim C2, as stated: for \<open>up\<close>, the stderr lines \<open>["Starting web ... done"]\<close> give
  changed=false and failed=false. The line starts with \<open>Starting\<close> and ends with
  \<open>done\<close>, not with \<open>up-to-date\<close>, so the classifier reports a change.
\<close>

theorem up_starting_done_counterexample:
  "eval_change ''up'' [''Starting web ... done''] [] = Inr (True, False)
   \<and> eval_change ''up'' [''Starting web ... done''] [] \<noteq> Inr (False, False)"
  by (simp add: eval_change_def set_if_any_def startswith_def endswith_def suffix_def)

text \<open>
  Claim C2, amended: for \<open>up\<close>, the stderr lines \<open>["Starting web ... done"]\<close> give
  changed=true and failed=false, and the stderr lines
  \<open>["Creating db ... done", "Starting web"]\<close> give changed=true (and failed=false),
  whatever the stdout lines.
\<close>

theorem up_examples_classified:
  "eval_change ''up'' [''Starting web ... done''] stdout_lines = Inr (True, False)
   \<and> eval_change ''up'' [''Creating db ... done'', ''Starting web''] stdout_lines = Inr (True, False)"
  by (simp add: eval_change_def set_if_any_def startswith_def endswith_def suffix_def)

theorem up_examples_classified_witness:
  "eval_change ''up'' [''Starting web ... done''] [''web uses an image, skipping'']
     = Inr (True, False)
   \<and> eval_change ''up'' [''Creating db ... done'', ''Starting web'']
         [''web uses an image, skipping''] = Inr (True, False)"
  by (rule up_examples_classified)

text \<open>
  Claim C6 says that the classifier returns a pair for every action and all output
  lines. For \<open>pause\<close> and the single stderr line \<open>Pausingdone\<close> it does not: the line
  starts with \<open>Pausing\<close> and ends with \<open>done\<close>, it has one token, and taking its second
  token raises IndexError.
\<close>

theorem pause_one_token_line_raises:
  "eval_change ''pause'' [''Pausingdone''] [] = Inl IndexError"
  by (simp add: eval_change_def service_state_allign_def startswith_def endswith_def suffix_def
      strip_def isspace_def second_token_def split_def)

lemma second_tokens_error: "second_tokens lns = Inl e \<Longrightarrow> e = IndexError"
  by (induction lns) (auto simp: second_token_def split: sum.splits list.splits)

lemma service_state_allign_error:
  "service_state_allign lines pfx = Inl e \<Longrightarrow> e = IndexError"
  by (auto simp: service_state_allign_def Let_def split: sum.splits dest: second_tokens_error)

lemma eval_change_failVal:
  "eval_change action stderr_lines stdout_lines = Inr (changed, failed) \<Longrightarrow>
   failed = (action = ''build'' \<and> (\<exists>ln\<in>set stderr_lines. contains ln ''failed to build''))"
  unfolding eval_change_def Let_def
  by (simp add: set_if_any_iff split: sum.splits if_splits)

lemma eval_change_Inl:
  "eval_change action stderr_lines stdout_lines = Inl e \<Longrightarrow>
   e = IndexError \<and> action \<in> {''pause'', ''unpause''}"
  unfolding eval_change_def Let_def
  by (simp split: sum.splits if_splits add: service_state_allign_error)

lemma contains_longer: "contains ln (p @ q) \<Longrightarrow> contains ln p"
  unfolding contains_def sublist_def by auto

text \<open>
  Claim C7. The classifier reports a failure only for the action \<open>build\<close> with a stderr
  line that contains \<open>failed to build\<close>: whenever it returns, the failure flag is exactly
  that condition, and the only way not to return is the IndexError of \<open>pause\<close> and
  \<open>unpause\<close>. For \<open>build\<close> it always returns, with changed=false; a stderr line
  containing \<open>failed to build: no such file\<close> gives failed=true and changed=false.
\<close>

theorem eval_change_failed:
  "((\<exists>changed. eval_change action stderr_lines stdout_lines =
        Inr (changed, action = ''build'' \<and> (\<exists>ln\<in>set stderr_lines. contains ln ''failed to build'')))
     \<or> (action \<in> {''pause'', ''unpause''}
          \<and> eval_change action stderr_lines stdout_lines = Inl IndexError))
   \<and> eval_change ''build'' stderr_lines stdout_lines =
        Inr (False, \<exists>ln\<in>set stderr_lines. contains ln ''failed to build'')
   \<and> ((\<exists>ln\<in>set stderr_lines. contains ln ''failed to build: no such file'') \<longrightarrow>
         eval_change ''build'' stderr_lines stdout_lines = Inr (False, True))"
proof (intro conjI)
  show "(\<exists>changed. eval_change action stderr_lines stdout_lines =
        Inr (changed, action = ''build'' \<and> (\<exists>ln\<in>set stderr_lines. contains ln ''failed to build'')))
     \<or> (action \<in> {''pause'', ''unpause''}
          \<and> eval_change action stderr_lines stdout_lines = Inl IndexError)"
  proof (cases "eval_change action stderr_lines stdout_lines")
    case (Inl e)
    then show ?thesis using eval_change_Inl [OF Inl] by simp
  next
    case (Inr r)
    obtain changed failed where r: "r = (changed, failed)" by (cases r)
    show ?thesis
      using eval_change_failVal [of action stderr_lines stdout_lines changed failed] Inr r
      by blast
  qed
  show build: "eval_change ''build'' stderr_lines stdout_lines =
        Inr (False, \<exists>ln\<in>set stderr_lines. contains ln ''failed to build'')"
    by (simp add: eval_change_def set_if_any_iff)
  have "contains ln ''failed to build''" if "contains ln ''failed to build: no such file''" for ln
    using contains_longer [of ln "''failed to build''" "'': no such file''"] that by simp
  then show "(\<exists>ln\<in>set stderr_lines. contains ln ''failed to build: no such file'') \<longrightarrow>
         eval_change ''build'' stderr_lines stdout_lines = Inr (False, True)"
    unfolding build by auto
qed

theorem eval_change_failed_witness:
  "eval_change ''build'' [''Step 1/2'', ''ERROR: Service web failed to build: no such file''] []
     = Inr (False, True)
   \<and> (\<exists>changed. eval_change ''up'' [''ERROR: Service web failed to build''] [] = Inr (changed, False))"
  using eval_change_failed [of "''build''" "[''Step 1/2'', ''ERROR: Service web failed to build: no such file'']" "[]"]
    eval_change_failed [of "''up''" "[''ERROR: Service web failed to build'']" "[]"]
  by (simp add: contains_def sublist_Cons_right)

section \<open>Properties of the service-state alignment\<close>

lemma second_tokens_mem:
  "second_tokens lns = Inr ts \<Longrightarrow> t \<in> set ts \<longleftrightarrow> (\<exists>ln\<in>set lns. second_token ln = Inr t)"
  by (induction lns arbitrary: ts) (auto split: sum.splits)

lemma record_errors_distinct:
  "distinct (map fst st) \<Longrightarrow> distinct (map fst (record_errors els es st))"
  unfolding record_errors_def by (induction els arbitrary: st) (simp_all add: distinct_update)

lemma fold_record_errors_distinct:
  "distinct (map fst st) \<Longrightarrow> distinct (map fst (fold (record_errors els) ess st))"
  by (induction ess arbitrary: st) (simp_all add: record_errors_distinct)

lemma fold_done_distinct:
  "distinct (map fst st) \<Longrightarrow>
   distinct (map fst (fold (\<lambda>done_service st. AList.update done_service v st) ds st))"
  by (induction ds arbitrary: st) (simp_all add: distinct_update)

lemma service_state_allign_distinct:
  "service_state_allign lines pfx = Inr st \<Longrightarrow> distinct (map fst st)"
  by (auto simp: service_state_allign_def Let_def fold_done_distinct fold_record_errors_distinct
      split: sum.splits)

lemma map_of_record_errors:
  "map_of (record_errors els es st) k =
     (if k = es \<and> filter (\<lambda>el. contains el es) els \<noteq> []
      then Some (last (filter (\<lambda>el. contains el es) els)) else map_of st k)"
  unfolding record_errors_def
  by (induction els arbitrary: st) (auto simp: update_conv')

lemma map_of_fold_record_errors:
  "map_of (fold (record_errors els) ess st) k =
     (if k \<in> set ess \<and> filter (\<lambda>el. contains el k) els \<noteq> []
      then Some (last (filter (\<lambda>el. contains el k) els)) else map_of st k)"
  by (induction ess arbitrary: st) (auto simp: map_of_record_errors)

lemma map_of_fold_done:
  "map_of (fold (\<lambda>done_service st. AList.update done_service v st) ds st) k =
     (if k \<in> set ds then Some v else map_of st k)"
  by (induction ds arbitrary: st) (auto simp: update_conv')

lemmas string_ops =
  startswith_def endswith_def suffix_def strip_def isspace_def second_token_def split_def
  contains_def sublist_Cons_right

text \<open>
  Claim C8. For \<open>pause\<close>, with the state mapping that the alignment builds from the
  stderr lines and the prefix \<open>Pausing\<close>, the classifier reports a change exactly when
  some service of the mapping has a state that does not end with \<open>is already paused\<close>
  (and no failure). In particular a mapping with one service whose state ends with
  \<open>is already paused\<close> and one whose state is \<open>done\<close> is a change.
\<close>

theorem eval_change_pause:
  assumes "service_state_allign stderr_lines ''Pausing'' = Inr service_state"
  shows "eval_change ''pause'' stderr_lines stdout_lines =
           Inr (\<exists>service state. map_of service_state service = Some state
                  \<and> \<not> endswith state ''is already paused'', False)
         \<and> ((\<exists>s1 s2 state. map_of service_state s1 = Some state
                \<and> endswith state ''is already paused''
                \<and> map_of service_state s2 = Some ''done'') \<longrightarrow>
              eval_change ''pause'' stderr_lines stdout_lines = Inr (True, False))"
proof -
  have d: "distinct (map fst service_state)"
    using assms by (rule service_state_allign_distinct)
  have vals: "(\<exists>v\<in>set (map snd service_state). Q v)
      \<longleftrightarrow> (\<exists>service state. map_of service_state service = Some state \<and> Q state)" for Q
    using d by force
  have main: "eval_change ''pause'' stderr_lines stdout_lines =
           Inr (\<exists>service state. map_of service_state service = Some state
                  \<and> \<not> endswith state ''is already paused'', False)"
    using assms vals [of "\<lambda>v. \<not> endswith v ''is already paused''"]
    by (simp add: eval_change_def set_if_any_iff)
  have "\<not> endswith ''done'' ''is already paused''"
    by (simp add: endswith_def suffix_def)
  then show ?thesis unfolding main by auto
qed

theorem eval_change_pause_witness:
  "service_state_allign
      [''Pausing web ... error'', ''Pausing db ... done'',
       ''ERROR: for web  Container 12ab is already paused''] ''Pausing''
     = Inr [(''web'', ''ERROR: for web  Container 12ab is already paused''), (''db'', ''done'')]
   \<and> eval_change ''pause''
        [''Pausing web ... error'', ''Pausing db ... done'',
         ''ERROR: for web  Container 12ab is already paused''] [] = Inr (True, False)"
proof -
  have st: "service_state_allign
      [''Pausing web ... error'', ''Pausing db ... done'',
       ''ERROR: for web  Container 12ab is already paused''] ''Pausing''
     = Inr [(''web'', ''ERROR: for web  Container 12ab is already paused''), (''db'', ''done'')]"
    by (simp add: service_state_allign_def startswith_def endswith_def suffix_def strip_def
        isspace_def second_token_def split_def record_errors_def contains_def sublist_Cons_right)
  have "\<exists>s1 s2 state.
          map_of [(''web'', ''ERROR: for web  Container 12ab is already paused''), (''db'', ''done'')] s1 = Some state
          \<and> endswith state ''is already paused''
          \<and> map_of [(''web'', ''ERROR: for web  Container 12ab is already paused''), (''db'', ''done'')] s2 = Some ''done''"
    by (rule exI [of _ "''web''"], rule exI [of _ "''db''"],
        rule exI [of _ "''ERROR: for web  Container 12ab is already paused''"])
       (simp add: endswith_def suffix_def)
  then show ?thesis
    using st eval_change_pause [OF st, of "[]"] by blast
qed

text \<open>
  Claim C10, as stated: a completed line ending in \<open>error\<close> whose service name is in no
  \<open>ERROR\<close> line leaves the service out of the mapping, and with several \<open>ERROR\<close> lines
  containing the name the last one is the value. Both fail when a completed line ending
  in \<open>done\<close> has the same service name: the loop over the done services runs last and
  stores \<open>done\<close>.
\<close>

theorem service_state_allign_error_line_counterexample:
  "second_token ''Pausing web ... error'' = Inr ''web''
   \<and> endswith ''Pausing web ... error'' ''error''
   \<and> service_state_allign [''Pausing web ... error'', ''Pausing web ... done''] ''Pausing''
       = Inr [(''web'', ''done'')]
   \<and> service_state_allign
        [''Pausing web ... error'', ''Pausing web ... done'',
         ''ERROR: for web  first'', ''ERROR: for web  second''] ''Pausing''
       = Inr [(''web'', ''done'')]"
  by (simp add: service_state_allign_def record_errors_def string_ops)

text \<open>
  Claim C10, amended. When the alignment returns, the entry of the service name
  (second token) of a completed line ending in \<open>error\<close> is: \<open>done\<close> if a completed
  line ending in \<open>done\<close> has the same second token; otherwise nothing at all if no line
  starting with \<open>ERROR\<close> contains the name, and otherwise the full text of the last
  line starting with \<open>ERROR\<close> that contains the name.
\<close>

theorem service_state_allign_error_line:
  assumes "service_state_allign lines pfx = Inr service_state"
    and "ln \<in> set lines" and "startswith ln pfx" and "\<not> endswith (strip ln) ''...''"
    and "endswith ln ''error''" and "second_token ln = Inr name"
  shows "map_of service_state name =
     (if \<exists>dl\<in>set lines. startswith dl pfx \<and> \<not> endswith (strip dl) ''...''
            \<and> endswith dl ''done'' \<and> second_token dl = Inr name
      then Some ''done''
      else if filter (\<lambda>el. startswith el ''ERROR'' \<and> contains el name) lines = [] then None
      else Some (last (filter (\<lambda>el. startswith el ''ERROR'' \<and> contains el name) lines)))"
proof -
  define pausing_lines where
    "pausing_lines = filter (\<lambda>ln. startswith ln pfx \<and> \<not> endswith (strip ln) ''...'') lines"
  define error_lines where "error_lines = filter (\<lambda>ln. startswith ln ''ERROR'') lines"
  from assms(1) obtain error_services done_services where
    es: "second_tokens (filter (\<lambda>ln. endswith ln ''error'') pausing_lines) = Inr error_services"
    and ds: "second_tokens (filter (\<lambda>ln. endswith ln ''done'') pausing_lines) = Inr done_services"
    and st: "service_state =
      fold (\<lambda>done_service st. AList.update done_service ''done'' st) done_services
        (fold (record_errors error_lines) error_services [])"
    unfolding service_state_allign_def pausing_lines_def error_lines_def Let_def
    by (auto split: sum.splits)
  have name_err: "name \<in> set error_services"
    using second_tokens_mem [OF es, of name] assms(2-6) by (auto simp: pausing_lines_def)
  have name_done: "name \<in> set done_services \<longleftrightarrow>
      (\<exists>dl\<in>set lines. startswith dl pfx \<and> \<not> endswith (strip dl) ''...''
            \<and> endswith dl ''done'' \<and> second_token dl = Inr name)"
    using second_tokens_mem [OF ds, of name] by (auto simp: pausing_lines_def)
  have flt: "filter (\<lambda>el. contains el name) error_lines =
      filter (\<lambda>el. startswith el ''ERROR'' \<and> contains el name) lines"
    by (simp add: error_lines_def conj_commute)
  show ?thesis
    unfolding st map_of_fold_done map_of_fold_record_errors name_done [symmetric] flt
    using name_err by simp
qed

theorem service_state_allign_error_line_witness:
  "service_state_allign
       [''Pausing web ... error'', ''Pausing db ... error'',
        ''ERROR: for web  first'', ''ERROR: for web  second''] ''Pausing''
     = Inr [(''web'', ''ERROR: for web  second'')]
   \<and> startswith ''Pausing web ... error'' ''Pausing''
   \<and> \<not> endswith (strip ''Pausing web ... error'') ''...''
   \<and> endswith ''Pausing web ... error'' ''error''
   \<and> second_token ''Pausing web ... error'' = Inr ''web''
   \<and> map_of [(''web'', ''ERROR: for web  second'')] ''web'' = Some ''ERROR: for web  second''
   \<and> second_token ''Pausing db ... error'' = Inr ''db''
   \<and> map_of [(''web'', ''ERROR: for web  second'')] ''db'' = None"
proof -
  let ?L = "[''Pausing web ... error'', ''Pausing db ... error'',
        ''ERROR: for web  first'', ''ERROR: for web  second'']"
  have st: "service_state_allign ?L ''Pausing'' = Inr [(''web'', ''ERROR: for web  second'')]"
    by (simp add: service_state_allign_def record_errors_def string_ops)
  have web: "startswith ''Pausing web ... error'' ''Pausing''"
    "\<not> endswith (strip ''Pausing web ... error'') ''...''"
    "endswith ''Pausing web ... error'' ''error''"
    "second_token ''Pausing web ... error'' = Inr ''web''"
    by (simp_all add: string_ops)
  have db: "startswith ''Pausing db ... error'' ''Pausing''"
    "\<not> endswith (strip ''Pausing db ... error'') ''...''"
    "endswith ''Pausing db ... error'' ''error''"
    "second_token ''Pausing db ... error'' = Inr ''db''"
    by (simp_all add: string_ops)
  have "map_of [(''web'', ''ERROR: for web  second'')] ''web'' = Some ''ERROR: for web  second''"
    using service_state_allign_error_line [OF st _ web] by (simp add: string_ops)
  moreover have "map_of [(''web'', ''ERROR: for web  second'')] ''db'' = None"
    using service_state_allign_error_line [OF st _ db] by (simp add: string_ops)
  ultimately show ?thesis using st web db by simp
qed

section \<open>Properties of the dependency resolver and of the entry point\<close>

lemma str_items_map_YStr: "str_items (map YStr xs) = Inr xs"
  by (induction xs) simp_all

lemma list_all_hashable_YStr: "list_all hashable (map YStr xs)"
  by (induction xs) simp_all

lemma remdups_map_YStr: "remdups (map YStr xs) = map YStr (remdups xs)"
  by (induction xs) auto

lemma str_items_Inr: "str_items xs = Inr ss \<Longrightarrow> xs = map YStr ss"
  by (induction xs arbitrary: ss rule: str_items.induct) (auto split: sum.splits)

lemma all_YStr_map: "set xs \<subseteq> range YStr \<Longrightarrow> \<exists>ss. xs = map YStr ss"
proof (induction xs)
  case Nil
  then show ?case by simp
next
  case (Cons x xs)
  then obtain ss s where "xs = map YStr ss" "x = YStr s" by auto
  then have "x # xs = map YStr (s # ss)" by simp
  then show ?case by (rule exI)
qed

lemma service_names_Inr:
  "service_names r S = Inr E \<longleftrightarrow> remdups (r @ map YStr S) = map YStr E"
proof
  assume "service_names r S = Inr E"
  then show "remdups (r @ map YStr S) = map YStr E"
    by (auto simp: service_names_def list_set_def split: if_splits dest: str_items_Inr)
next
  assume eq: "remdups (r @ map YStr S) = map YStr E"
  then have "set (r @ map YStr S) = set (map YStr E)" by (metis set_remdups)
  then have "list_all hashable (r @ map YStr S)"
    by (auto simp: list_all_iff)
  then show "service_names r S = Inr E"
    using eq by (simp add: service_names_def list_set_def str_items_map_YStr)
qed

lemma service_names_set:
  assumes "service_names r S = Inr E"
  shows "set E = {x. YStr x \<in> set r} \<union> set S" and "set r \<subseteq> range YStr"
proof -
  from assms have "set (r @ map YStr S) = set (map YStr E)"
    unfolding service_names_Inr by (metis set_remdups)
  then have eq: "set r \<union> YStr ` set S = YStr ` set E" by simp
  then show "set r \<subseteq> range YStr" by auto
  show "set E = {x. YStr x \<in> set r} \<union> set S"
  proof (intro set_eqI iffI)
    fix x assume "x \<in> set E"
    then have "YStr x \<in> set r \<union> YStr ` set S" using eq by auto
    then show "x \<in> {x. YStr x \<in> set r} \<union> set S" by auto
  next
    fix x assume "x \<in> {x. YStr x \<in> set r} \<union> set S"
    then have "YStr x \<in> YStr ` set E" using eq by auto
    then show "x \<in> set E" by auto
  qed
qed

lemma service_names_ex:
  assumes "set r \<subseteq> range YStr"
  shows "\<exists>E. service_names r S = Inr E"
proof -
  from all_YStr_map [OF assms] obtain ss where "r = map YStr ss" ..
  then have "remdups (r @ map YStr S) = map YStr (remdups (ss @ S))"
    using remdups_map_YStr [of "ss @ S"] by simp
  then show ?thesis unfolding service_names_Inr by blast
qed

lemma resolve_loop_Cons:
  assumes "resolve_loop all_services deps (s # rest) = Inr r" and "list_all hashable deps"
  shows "\<exists>ds mid. resolve_loop all_services [] [s] = Inr ds
           \<and> resolve_loop all_services mid rest = Inr r
           \<and> set mid = set deps \<union> set ds \<and> list_all hashable mid"
  using assms
  by (auto simp: list_add_def list_set_def list_all_iff split: sum.splits yaml.splits if_splits)

lemma resolve_loop_set:
  assumes "resolve_loop all_services deps S = Inr r" and "list_all hashable deps"
  shows "(\<forall>s\<in>set S. \<exists>ds. resolve_loop all_services [] [s] = Inr ds)
       \<and> set r = set deps \<union> {d. \<exists>s\<in>set S. \<exists>ds. resolve_loop all_services [] [s] = Inr ds \<and> d \<in> set ds}"
  using assms
proof (induction S arbitrary: deps)
  case Nil
  then show ?case by simp
next
  case (Cons s S)
  from resolve_loop_Cons [OF Cons.prems] obtain ds mid where
    ds: "resolve_loop all_services [] [s] = Inr ds"
    and mid: "resolve_loop all_services mid S = Inr r"
    and set_mid: "set mid = set deps \<union> set ds" and h: "list_all hashable mid"
    by blast
  from Cons.IH [OF mid h] ds set_mid show ?case by auto
qed


lemma effective_services_Inr:
  "effective_services False info S = Inr E \<longleftrightarrow>
     (\<exists>all_services r. dict_get info ''services'' (YList []) = Inr all_services
        \<and> resolve_loop all_services [] S = Inr r \<and> service_names r S = Inr E)"
  by (auto simp: effective_services_def resolve_dependencies_def split: sum.splits)

lemma effective_services_single:
  assumes "dict_get info ''services'' (YList []) = Inr all_services"
    and "resolve_loop all_services [] [s] = Inr ds" and "set ds \<subseteq> range YStr"
  shows "\<exists>E1. effective_services False info [s] = Inr E1 \<and> set E1 = {x. YStr x \<in> set ds} \<union> {s}"
proof -
  from service_names_ex [OF assms(3)] obtain E1 where E1: "service_names ds [s] = Inr E1" ..
  then have "effective_services False info [s] = Inr E1"
    unfolding effective_services_Inr using assms(1,2) by blast
  moreover have "set E1 = {x. YStr x \<in> set ds} \<union> {s}"
    using service_names_set(1) [OF E1] by simp
  ultimately show ?thesis by blast
qed

lemma effective_services_set:
  assumes "effective_services False info S = Inr E"
  shows "set E = set S \<union>
           {d. \<exists>s\<in>set S. \<exists>E1. effective_services False info [s] = Inr E1 \<and> d \<in> set E1}"
proof -
  from assms obtain all_services r where
    a: "dict_get info ''services'' (YList []) = Inr all_services"
    and r: "resolve_loop all_services [] S = Inr r" and n: "service_names r S = Inr E"
    unfolding effective_services_Inr by blast
  have ex: "\<forall>s\<in>set S. \<exists>ds. resolve_loop all_services [] [s] = Inr ds"
    and set_r: "set r = {d. \<exists>s\<in>set S. \<exists>ds. resolve_loop all_services [] [s] = Inr ds \<and> d \<in> set ds}"
    using resolve_loop_set [OF r] by simp_all
  have set_E: "set E = {x. YStr x \<in> set r} \<union> set S" and strs: "set r \<subseteq> range YStr"
    using service_names_set [OF n] by simp_all
  show ?thesis
  proof (intro set_eqI iffI)
    fix x assume "x \<in> set E"
    then consider "x \<in> set S" | "YStr x \<in> set r" using set_E by auto
    then show "x \<in> set S \<union>
           {d. \<exists>s\<in>set S. \<exists>E1. effective_services False info [s] = Inr E1 \<and> d \<in> set E1}"
    proof cases
      case 1
      then show ?thesis by simp
    next
      case 2
      then obtain s ds where s: "s \<in> set S" and ds: "resolve_loop all_services [] [s] = Inr ds"
        and x: "YStr x \<in> set ds" using set_r by auto
      have "set ds \<subseteq> range YStr" using strs set_r s ds by auto
      from effective_services_single [OF a ds this] x s show ?thesis by auto
    qed
  next
    fix x assume "x \<in> set S \<union>
           {d. \<exists>s\<in>set S. \<exists>E1. effective_services False info [s] = Inr E1 \<and> d \<in> set E1}"
    then consider "x \<in> set S"
      | s E1 where "s \<in> set S" "effective_services False info [s] = Inr E1" "x \<in> set E1"
      by auto
    then show "x \<in> set E"
    proof cases
      case 1
      then show ?thesis using set_E by simp
    next
      case 2
      from 2(2) obtain all' ds where a': "dict_get info ''services'' (YList []) = Inr all'"
        and ds: "resolve_loop all' [] [s] = Inr ds" and n1: "service_names ds [s] = Inr E1"
        unfolding effective_services_Inr by blast
      have "all' = all_services" using a a' by simp
      then have "set ds \<subseteq> set r" using set_r 2(1) ds by auto
      moreover have "set E1 = {x. YStr x \<in> set ds} \<union> {s}"
        using service_names_set(1) [OF n1] by simp
      ultimately show ?thesis using 2(1,3) set_E by auto
    qed
  qed
qed

lemmas resolver_ops =
  effective_services_def resolve_dependencies_def service_names_def dict_get_def list_add_def
  list_set_def

text \<open>
  Claim C4. With \<open>ignoredependencys\<close> set, whatever the compose document and the
  requested services, no dependency is added: \<open>depedency_services\<close> stays empty and the
  services named on the command line are the requested ones, each once. A run that
  reaches the command line is the run on exactly these names.
\<close>

theorem ignoredependencys_no_expansion:
  "resolve_dependencies True info svcs = Inr []
   \<and> effective_services True info svcs = Inr (remdups svcs)
   \<and> set (remdups svcs) = set svcs \<and> distinct (remdups svcs)
   \<and> (ignoredependencys p \<and> find_compose_cmd h = Some COMPOSE_CMD \<and> location_is_file h
        \<and> \<not> (command p = ''down'' \<and> services p \<noteq> [])
        \<and> load_yaml h = Some info \<and> chdir_ok h \<longrightarrow>
       main h p = run_module h p COMPOSE_CMD (remdups (services p)))"
proof -
  have r: "resolve_dependencies True info svcs = Inr []" for svcs
    by (simp add: resolve_dependencies_def)
  have n: "service_names [] svcs = Inr (remdups svcs)" for svcs
    by (simp add: service_names_def list_set_def list_all_hashable_YStr remdups_map_YStr
        str_items_map_YStr)
  have e: "effective_services True info svcs = Inr (remdups svcs)"
    by (simp add: effective_services_def r n)
  have "length (services p) \<ge> 1 \<longleftrightarrow> services p \<noteq> []" by (cases "services p") simp_all
  then have "main h p = run_module h p COMPOSE_CMD (remdups (services p))"
    if "ignoredependencys p" "find_compose_cmd h = Some COMPOSE_CMD" "location_is_file h"
      "\<not> (command p = ''down'' \<and> services p \<noteq> [])" "load_yaml h = Some info" "chdir_ok h"
    using that r [of "services p"] n [of "services p"] by (auto simp add: main_def)
  then show ?thesis using r e by simp
qed

theorem ignoredependencys_no_expansion_witness:
  "effective_services True
      (YMap [(''services'', YMap [(''web'', YMap [(''depends_on'', YList [YStr ''db''])])])])
      [''web'', ''web''] = Inr [''web'']
   \<and> main \<lparr>get_bin_path = Some ''/usr/bin/docker-compose'', alternative_exists = False,
            location_is_file = True,
            load_yaml = Some (YMap [(''services'',
                          YMap [(''web'', YMap [(''depends_on'', YList [YStr ''db''])])])]),
            chdir_ok = True, run_command = (\<lambda>c. (0, [], []))\<rparr>
        \<lparr>location = ''/opt/app/docker-compose.yml'', services = [''web'', ''web''],
         command = ''up'', ignoredependencys = True, removevolumes = True\<rparr>
     = ([''/usr/bin/docker-compose up -d web''], Exit_json 0 False (0, False, False) [] [])"
  using ignoredependencys_no_expansion
     [of "YMap [(''services'', YMap [(''web'', YMap [(''depends_on'', YList [YStr ''db''])])])]"
         "[''web'', ''web'']"
         "\<lparr>location = ''/opt/app/docker-compose.yml'', services = [''web'', ''web''],
         command = ''up'', ignoredependencys = True, removevolumes = True\<rparr>"
         "\<lparr>get_bin_path = Some ''/usr/bin/docker-compose'', alternative_exists = False,
            location_is_file = True,
            load_yaml = Some (YMap [(''services'',
                          YMap [(''web'', YMap [(''depends_on'', YList [YStr ''db''])])])]),
            chdir_ok = True, run_command = (\<lambda>c. (0, [], []))\<rparr>"
         "''/usr/bin/docker-compose''"]
  by (simp add: find_compose_cmd_def run_module_def eval_change_def set_if_any_def splitlines_def)

text \<open>
  Claim C5. When the command is \<open>down\<close> and the requested service list is not empty,
  whatever the other parameters and the host, the module ends in \<open>fail_json\<close> with one
  of the configuration messages (the binary is missing, the location is no file, or
  \<open>down\<close> was given services) and has run no command.
\<close>

theorem down_with_services_fails:
  assumes "command p = ''down''" and "services p \<noteq> []"
  shows "main h p =
     ([], Fail_json
            (if find_compose_cmd h = None then ''docker-compose binary not found''
             else if \<not> location_is_file h then
               ''Location does not exists. Enter full path and compose filename.''
             else ''You cannot specify the command as down and a number of services'')
            None)"
proof -
  have "length (services p) \<ge> 1" using assms(2) by (cases "services p") simp_all
  then show ?thesis using assms(1) by (simp add: main_def split: option.splits)
qed

theorem down_with_services_fails_witness:
  "main \<lparr>get_bin_path = Some ''/usr/bin/docker-compose'', alternative_exists = False,
            location_is_file = True, load_yaml = Some (YMap []), chdir_ok = True,
            run_command = (\<lambda>c. (0, [], []))\<rparr>
      \<lparr>location = ''/opt/app/docker-compose.yml'', services = [''web''], command = ''down'',
       ignoredependencys = True, removevolumes = False\<rparr>
   = ([], Fail_json ''You cannot specify the command as down and a number of services'' None)"
  using down_with_services_fails [of "\<lparr>location = ''/opt/app/docker-compose.yml'', services = [''web''], command = ''down'',
       ignoredependencys = True, removevolumes = False\<rparr>"
     "\<lparr>get_bin_path = Some ''/usr/bin/docker-compose'', alternative_exists = False,
            location_is_file = True, load_yaml = Some (YMap []), chdir_ok = True,
            run_command = (\<lambda>c. (0, [], []))\<rparr>"]
  by (simp add: find_compose_cmd_def)

text \<open>
  Claim C9. When the loaded document is a dictionary without the key \<open>services\<close>, the
  requested service list is not empty and dependencies are not ignored, dependency
  resolution raises (AttributeError: the fallback of the lookup is a list, which has no
  \<open>get\<close>), and so does the module before it runs any command.
\<close>

theorem no_services_key_raises:
  assumes "map_of kvs ''services'' = None" and "svcs \<noteq> []"
  shows "resolve_dependencies False (YMap kvs) svcs = Inl AttributeError
     \<and> (\<not> ignoredependencys p \<and> services p = svcs \<and> command p \<noteq> ''down''
          \<and> find_compose_cmd h \<noteq> None \<and> location_is_file h
          \<and> load_yaml h = Some (YMap kvs) \<and> chdir_ok h \<longrightarrow>
         main h p = ([], Raised AttributeError))"
proof -
  obtain s rest where svcs: "svcs = s # rest" using assms(2) by (cases svcs) auto
  have r: "resolve_dependencies False (YMap kvs) svcs = Inl AttributeError"
    using assms(1) by (simp add: resolve_dependencies_def dict_get_def svcs)
  then show ?thesis by (auto simp: main_def)
qed

theorem no_services_key_raises_witness:
  "resolve_dependencies False (YMap [(''version'', YStr ''2'')]) [''web''] = Inl AttributeError
   \<and> main \<lparr>get_bin_path = Some ''/usr/bin/docker-compose'', alternative_exists = False,
            location_is_file = True, load_yaml = Some (YMap [(''version'', YStr ''2'')]),
            chdir_ok = True, run_command = (\<lambda>c. (0, [], []))\<rparr>
        \<lparr>location = ''/opt/app/docker-compose.yml'', services = [''web''], command = ''up'',
         ignoredependencys = False, removevolumes = True\<rparr>
     = ([], Raised AttributeError)"
  using no_services_key_raises [of "[(''version'', YStr ''2'')]" "[''web'']"
      "\<lparr>location = ''/opt/app/docker-compose.yml'', services = [''web''], command = ''up'',
         ignoredependencys = False, removevolumes = True\<rparr>"
      "\<lparr>get_bin_path = Some ''/usr/bin/docker-compose'', alternative_exists = False,
            location_is_file = True, load_yaml = Some (YMap [(''version'', YStr ''2'')]),
            chdir_ok = True, run_command = (\<lambda>c. (0, [], []))\<rparr>"]
  by (simp add: find_compose_cmd_def)

text \<open>
  Claim C3, as stated: expanding an already expanded set gives the same set. The
  expansion is one pass, so a dependency of a dependency comes in only with the second
  run: with \<open>a\<close> depending on \<open>b\<close> and \<open>b\<close> on \<open>c\<close>, the request \<open>a\<close> expands to
  \<open>{a, b}\<close> and that set expands to \<open>{a, b, c}\<close>.
\<close>

theorem expansion_again_counterexample:
  "effective_services False
      (YMap [(''version'', YStr ''2''),
             (''services'', YMap [(''a'', YMap [(''depends_on'', YList [YStr ''b''])]),
                                  (''b'', YMap [(''depends_on'', YList [YStr ''c''])]),
                                  (''c'', YMap [(''image'', YStr ''redis'')])])])
      [''a''] = Inr [''b'', ''a'']
   \<and> effective_services False
      (YMap [(''version'', YStr ''2''),
             (''services'', YMap [(''a'', YMap [(''depends_on'', YList [YStr ''b''])]),
                                  (''b'', YMap [(''depends_on'', YList [YStr ''c''])]),
                                  (''c'', YMap [(''image'', YStr ''redis'')])])])
      [''b'', ''a''] = Inr [''c'', ''b'', ''a'']
   \<and> set [''c'', ''b'', ''a''] \<noteq> set [''b'', ''a'']"
proof (intro conjI)
  have "''c'' \<in> set [''c'', ''b'', ''a'']" and "''c'' \<notin> set [''b'', ''a'']" by simp_all
  then show "set [''c'', ''b'', ''a''] \<noteq> set [''b'', ''a'']" by metis
qed (simp_all add: resolver_ops)

text \<open>
  Claim C3, amended. Where the expansion of a requested service list and the expansion
  of its result both succeed, the expanded set contains the requested set, expanding it
  again gives a superset of it, and gives that same set exactly when the expansion of
  each single service of the expanded set stays inside the expanded set (every
  \<open>depends_on\<close> entry of a service in the set is in the set already).
\<close>

theorem expansion_again:
  assumes "effective_services False info S = Inr E"
    and "effective_services False info E = Inr E'"
  shows "set S \<subseteq> set E \<and> set E \<subseteq> set E'
     \<and> (set E' = set E \<longleftrightarrow>
          (\<forall>s\<in>set E. \<forall>E1. effective_services False info [s] = Inr E1 \<longrightarrow> set E1 \<subseteq> set E))"
  unfolding effective_services_set [OF assms(1)] effective_services_set [OF assms(2)]
  using effective_services_set [OF assms(1)] by blast

theorem expansion_again_witness:
  "effective_services False
      (YMap [(''services'', YMap [(''a'', YMap [(''depends_on'', YList [YStr ''b''])]),
                                  (''b'', YMap [(''image'', YStr ''redis'')])])])
      [''a''] = Inr [''b'', ''a'']
   \<and> effective_services False
      (YMap [(''services'', YMap [(''a'', YMap [(''depends_on'', YList [YStr ''b''])]),
                                  (''b'', YMap [(''image'', YStr ''redis'')])])])
      [''b'', ''a''] = Inr [''b'', ''a'']
   \<and> set [''a''] \<subseteq> set [''b'', ''a'']
   \<and> \<not> (\<exists>s E1. s \<in> set [''b'', ''a'']
          \<and> effective_services False
              (YMap [(''services'', YMap [(''a'', YMap [(''depends_on'', YList [YStr ''b''])]),
                                          (''b'', YMap [(''image'', YStr ''redis'')])])])
              [s] = Inr E1
          \<and> \<not> set E1 \<subseteq> set [''b'', ''a''])"
proof -
  let ?doc = "YMap [(''services'', YMap [(''a'', YMap [(''depends_on'', YList [YStr ''b''])]),
                                       (''b'', YMap [(''image'', YStr ''redis'')])])]"
  have 1: "effective_services False ?doc [''a''] = Inr [''b'', ''a'']"
    by (simp add: resolver_ops)
  have 2: "effective_services False ?doc [''b'', ''a''] = Inr [''b'', ''a'']"
    by (simp add: resolver_ops)
  from expansion_again [OF 1 2] 1 2 show ?thesis by blast
qed

end
